theory Spec2Isabelle
  imports Complex_Main "HOL-Library.AList" "HOL-Library.Sublist"
begin

section \<open>Text normalisation\<close>

text \<open>
  Both reading paths of \<^verbatim>\<open>processing/file_processor.py\<close> derive the column
  \<^verbatim>\<open>clean_text\<close> with
  \<^verbatim>\<open>chunk['text'].str.replace(r'@\w+', '', regex=True).str.strip()\<close>.
  A text is a list of characters. Characters are the 8-bit code points of \<^typ>\<open>char\<close>;
  on that range the two character classes follow Python 3: \<^verbatim>\<open>\w\<close> is an
  alphanumeric character or the underscore, and \<^verbatim>\<open>str.strip()\<close> removes the
  characters for which \<^verbatim>\<open>str.isspace\<close> holds.
\<close>

definition is_word :: "char \<Rightarrow> bool" where
  "is_word c =
     (let n = (of_char c :: nat)
      in (48 \<le> n \<and> n \<le> 57) \<or> (65 \<le> n \<and> n \<le> 90) \<or> n = 95 \<or> (97 \<le> n \<and> n \<le> 122)
         \<or> n = 170 \<or> n = 178 \<or> n = 179 \<or> n = 181 \<or> n = 185 \<or> n = 186
         \<or> (188 \<le> n \<and> n \<le> 190) \<or> (192 \<le> n \<and> n \<le> 214)
         \<or> (216 \<le> n \<and> n \<le> 246) \<or> (248 \<le> n \<and> n \<le> 255))"

definition is_space :: "char \<Rightarrow> bool" where
  "is_space c =
     (let n = (of_char c :: nat)
      in (9 \<le> n \<and> n \<le> 13) \<or> (28 \<le> n \<and> n \<le> 32) \<or> n = 133 \<or> n = 160)"

text \<open>
  \<^verbatim>\<open>re.sub(r'@\w+', '', s)\<close>: scanning from the left, an \<^verbatim>\<open>@\<close> that is followed
  by a word character starts a match, which greedily takes every following word
  character; the match is deleted and scanning resumes behind it.
\<close>

function sub_mentions :: "string \<Rightarrow> string" where
  "sub_mentions [] = []"
| "sub_mentions (c # cs) =
     (if c = CHR ''@'' \<and> cs \<noteq> [] \<and> is_word (hd cs)
      then sub_mentions (dropWhile is_word cs)
      else c # sub_mentions cs)"
  by pat_completeness auto
termination
  by (relation "measure length") (auto simp: length_dropWhile_le le_imp_less_Suc)

definition strip :: "string \<Rightarrow> string" where
  "strip s = rev (dropWhile is_space (rev (dropWhile is_space s)))"

definition clean_text :: "string \<Rightarrow> string" where
  "clean_text s = strip (sub_mentions s)"

text \<open>A mention token occurs in a text where an \<^verbatim>\<open>@\<close> is followed by a word character.\<close>

fun has_mention :: "string \<Rightarrow> bool" where
  "has_mention (c # d # cs) = ((c = CHR ''@'' \<and> is_word d) \<or> has_mention (d # cs))"
| "has_mention _ = False"

section \<open>Data frames\<close>

text \<open>
  The pipeline works on pandas data frames. A frame is modelled by its column names, in
  order, and its rows, in index order; a row maps each column name to a cell. A text
  column read from a file holds strings and \<^verbatim>\<open>NaN\<close> for a missing value; a column
  converted by \<^verbatim>\<open>pd.to_datetime\<close> holds timestamps (nanoseconds since the epoch)
  and \<^verbatim>\<open>NaT\<close>.
\<close>

datatype cell = Str string | NaN | Datetime int | NaT

type_synonym row = "(string \<times> cell) list"

record dataframe =
  columns :: "string list"
  rows :: "row list"

text \<open>
  The exceptions the pipeline can meet. \<open>ParserError\<close> carries the line of the file the
  tokenizer stopped at, \<open>DateParseError\<close> the text that is no timestamp and its position
  in the converted column, as the messages of pandas do; \<open>Exception\<close> stands for any
  other exception class, with its message.
\<close>

datatype error =
    ValueError string
  | KeyError string
  | AttributeError string
  | ParserError nat
  | DateParseError string nat
  | Exception string

definition cell_at :: "row \<Rightarrow> string \<Rightarrow> cell" where
  "cell_at r c = (case map_of r c of Some v \<Rightarrow> v | None \<Rightarrow> NaN)"

text \<open>\<^verbatim>\<open>df[c]\<close>: the column as a list of values, or \<^verbatim>\<open>KeyError\<close>.\<close>

definition getitem :: "dataframe \<Rightarrow> string \<Rightarrow> error + cell list" where
  "getitem df c =
     (if c \<in> set (columns df) then Inr (map (\<lambda>r. cell_at r c) (rows df)) else Inl (KeyError c))"

text \<open>
  \<^verbatim>\<open>df[c] = values\<close>: an existing column is overwritten in place, a new one is
  appended as the last column. The values always come from a column of the same frame
  here, so there is one for each row.
\<close>

definition setitem :: "dataframe \<Rightarrow> string \<Rightarrow> cell list \<Rightarrow> dataframe" where
  "setitem df c vs =
     \<lparr>columns = (if c \<in> set (columns df) then columns df else columns df @ [c]),
      rows = map (\<lambda>(r, v). AList.update c v r) (zip (rows df) vs)\<rparr>"

text \<open>
  \<^verbatim>\<open>pd.to_datetime(column)\<close>. How a text is read as a timestamp is the library's
  business and is the parameter \<open>parse\<close>, which reads each text on its own; \<open>None\<close>
  means that the text is no timestamp. The first such text raises, with its position in
  the column; missing values become \<^verbatim>\<open>NaT\<close>.
\<close>

definition datetime_cell :: "(string \<Rightarrow> int option) \<Rightarrow> nat \<Rightarrow> cell \<Rightarrow> error + cell" where
  "datetime_cell parse pos v =
     (case v of
        Str s \<Rightarrow> (case parse s of None \<Rightarrow> Inl (DateParseError s pos) | Some t \<Rightarrow> Inr (Datetime t))
      | NaN \<Rightarrow> Inr NaT
      | Datetime t \<Rightarrow> Inr (Datetime t)
      | NaT \<Rightarrow> Inr NaT)"

fun to_datetime :: "(string \<Rightarrow> int option) \<Rightarrow> nat \<Rightarrow> cell list \<Rightarrow> error + cell list" where
  "to_datetime parse pos [] = Inr []"
| "to_datetime parse pos (v # vs) =
     (case datetime_cell parse pos v of
        Inl e \<Rightarrow> Inl e
      | Inr d \<Rightarrow> (case to_datetime parse (Suc pos) vs of Inl e \<Rightarrow> Inl e | Inr ds \<Rightarrow> Inr (d # ds)))"

text \<open>
  The \<^verbatim>\<open>.str\<close> accessor of a column. pandas refuses it on a column that is not of
  string kind: a non-empty column without a single string (all values missing, so read as
  floating point) raises \<^verbatim>\<open>AttributeError\<close>.
\<close>

fun is_str :: "cell \<Rightarrow> bool" where
  "is_str (Str s) = True"
| "is_str _ = False"

definition str_accessor :: "cell list \<Rightarrow> error + cell list" where
  "str_accessor vs =
     (if vs = [] \<or> list_ex is_str vs then Inr vs
      else Inl (AttributeError ''Can only use .str accessor with string values!''))"

text \<open>
  \<^verbatim>\<open>.str.replace(r'@\w+', '', regex=True).str.strip()\<close> on one value: the string
  methods of pandas work on strings and leave a missing value missing.
\<close>

fun clean_cell :: "cell \<Rightarrow> cell" where
  "clean_cell (Str s) = Str (clean_text s)"
| "clean_cell _ = NaN"

text \<open>
  \<^verbatim>\<open>pd.concat(frames, ignore_index=True)\<close>: no frame at all is an error; otherwise the
  columns are the union of the frames' columns in order of first appearance, the rows
  follow each other in the order of the frames, and a column that a frame lacks reads
  \<^verbatim>\<open>NaN\<close> in its rows.
\<close>

definition add_column :: "string list \<Rightarrow> string \<Rightarrow> string list" where
  "add_column cs c = (if c \<in> set cs then cs else cs @ [c])"

definition union_columns :: "dataframe list \<Rightarrow> string list" where
  "union_columns dfs = foldl add_column [] (concat (map columns dfs))"

definition reindex :: "string list \<Rightarrow> row \<Rightarrow> row" where
  "reindex cs r = map (\<lambda>c. (c, cell_at r c)) cs"

definition concat_frames :: "dataframe list \<Rightarrow> error + dataframe" where
  "concat_frames dfs =
     (if dfs = [] then Inl (ValueError ''No objects to concatenate'')
      else Inr \<lparr>columns = union_columns dfs,
                rows = concat (map (\<lambda>df. map (reindex (union_columns dfs)) (rows df)) dfs)\<rparr>)"

section \<open>Files and their chunks\<close>

text \<open>
  A delimited file as the tokenizer of \<^verbatim>\<open>pd.read_csv\<close> sees it: its path, its size in
  bytes, the column names of the header line, and the data lines behind it. A data line is
  either read into fields, a map from column name to text in which an empty field has no
  entry, or it is malformed and stops the tokenizer. A file that cannot be opened or has
  no header is outside this model.
\<close>

datatype line = Fields "string \<rightharpoonup> string" | Malformed

record csv_file =
  path :: string
  size_bytes :: nat
  header :: "string list"
  lines :: "line list"

definition to_row :: "string list \<Rightarrow> (string \<rightharpoonup> string) \<Rightarrow> row" where
  "to_row hdr r = map (\<lambda>c. (c, case r c of Some s \<Rightarrow> Str s | None \<Rightarrow> NaN)) hdr"

text \<open>Reading lines into rows; \<open>n\<close> is the line number in the file of the first of them.\<close>

fun tokenize :: "string list \<Rightarrow> nat \<Rightarrow> line list \<Rightarrow> error + row list" where
  "tokenize hdr n [] = Inr []"
| "tokenize hdr n (Malformed # ls) = Inl (ParserError n)"
| "tokenize hdr n (Fields r # ls) =
     (case tokenize hdr (Suc n) ls of Inl e \<Rightarrow> Inl e | Inr rs \<Rightarrow> Inr (to_row hdr r # rs))"

text \<open>
  \<^verbatim>\<open>pd.read_csv(filepath, chunksize=C)\<close> hands out the data lines \<open>C\<close> at a time. The
  first chunk is handed out even when the file has no data line (an empty frame with the
  header's columns); after it the reader stops as soon as no line is left.
\<close>

function chunks_of :: "nat \<Rightarrow> 'a list \<Rightarrow> 'a list list" where
  "chunks_of C xs = (if C = 0 \<or> xs = [] then [] else take C xs # chunks_of C (drop C xs))"
  by pat_completeness auto
termination
  by (relation "measure (\<lambda>(C, xs). length xs)") auto

declare chunks_of.simps [simp del]

definition read_csv_chunks :: "nat \<Rightarrow> line list \<Rightarrow> line list list" where
  "read_csv_chunks C ls = (if ls = [] then [[]] else chunks_of C ls)"

section \<open>The processor\<close>

text \<open>
  \<^verbatim>\<open>LargeFileProcessor\<close>: the chunk size, whether a Dask client is held, and the two
  counters. \<^verbatim>\<open>__init__\<close> takes the configured chunk size when none (or zero) is given.
\<close>

record processor =
  chunk_size :: int
  client :: bool
  processed_chunks :: nat
  total_rows :: nat

definition init_processor :: "int \<Rightarrow> int option \<Rightarrow> processor" where
  "init_processor config_chunk_size given =
     \<lparr>chunk_size = (case given of None \<Rightarrow> config_chunk_size
                     | Some c \<Rightarrow> if c = 0 then config_chunk_size else c),
      client = False, processed_chunks = 0, total_rows = 0\<rparr>"

text \<open>
  The body of the loop of \<^verbatim>\<open>_process_with_chunks\<close> on one chunk: both column
  assignments, in the order of the source.
\<close>

definition process_chunk :: "(string \<Rightarrow> int option) \<Rightarrow> dataframe \<Rightarrow> error + dataframe" where
  "process_chunk parse chunk =
     (case getitem chunk ''created_at'' of
        Inl e \<Rightarrow> Inl e
      | Inr ts \<Rightarrow>
     (case to_datetime parse 0 ts of
        Inl e \<Rightarrow> Inl e
      | Inr ds \<Rightarrow>
     (case getitem (setitem chunk ''created_at'' ds) ''text'' of
        Inl e \<Rightarrow> Inl e
      | Inr txt \<Rightarrow>
     (case str_accessor txt of
        Inl e \<Rightarrow> Inl e
      | Inr txt' \<Rightarrow>
          Inr (setitem (setitem chunk ''created_at'' ds) ''clean_text'' (map clean_cell txt'))))))"

text \<open>
  A progress callback is called with the chunk index, the number of rows of the chunk and
  the processor's row counter; it returns, or raises an exception. What the loop has done
  so far is its state: the chunks collected, the processor, and the calls made.
\<close>

type_synonym callback = "nat \<Rightarrow> nat \<Rightarrow> nat \<Rightarrow> error option"

record loop_state =
  chunks :: "dataframe list"
  proc :: processor
  calls :: "(nat \<times> nat \<times> nat) list"

fun chunk_loop ::
  "(string \<Rightarrow> int option) \<Rightarrow> string list \<Rightarrow> nat \<Rightarrow> callback option \<Rightarrow>
   nat \<Rightarrow> line list list \<Rightarrow> loop_state \<Rightarrow> error option \<times> loop_state" where
  "chunk_loop parse hdr C cb i [] s = (None, s)"
| "chunk_loop parse hdr C cb i (raw # rest) s =
     (case tokenize hdr (i * C + 2) raw of
        Inl e \<Rightarrow> (Some e, s)
      | Inr rs \<Rightarrow>
     (case process_chunk parse \<lparr>columns = hdr, rows = rs\<rparr> of
        Inl e \<Rightarrow> (Some e, s)
      | Inr chunk \<Rightarrow>
          let n = length (rows chunk);
              p = (proc s)\<lparr>processed_chunks := processed_chunks (proc s) + 1,
                           total_rows := total_rows (proc s) + n\<rparr>;
              s1 = s\<lparr>chunks := chunks s @ [chunk], proc := p\<rparr>
          in (case cb of
                None \<Rightarrow> chunk_loop parse hdr C cb (Suc i) rest s1
              | Some f \<Rightarrow>
                  let s2 = s1\<lparr>calls := calls s1 @ [(i, n, total_rows p)]\<rparr>
                  in (case f i n (total_rows p) of
                        Some e \<Rightarrow> (Some e, s2)
                      | None \<Rightarrow> chunk_loop parse hdr C cb (Suc i) rest s2))))"

text \<open>
  What a call of a reading method leaves behind: the frame it returns or the exception it
  raises, the processor afterwards, and the calls of the progress callback it made.
\<close>

record run =
  returned :: "error + dataframe"
  after :: processor
  progress :: "(nat \<times> nat \<times> nat) list"

text \<open>
  \<^verbatim>\<open>_process_with_chunks\<close>. pandas rejects a chunk size below one when the reader is
  created. The \<^verbatim>\<open>except\<close> clause logs and raises the exception again, unchanged.
\<close>

definition process_with_chunks ::
  "(string \<Rightarrow> int option) \<Rightarrow> processor \<Rightarrow> csv_file \<Rightarrow> callback option \<Rightarrow> run" where
  "process_with_chunks parse p f cb =
     (if chunk_size p < 1
      then \<lparr>returned = Inl (ValueError ''chunksize must be an integer >=1''), after = p, progress = []\<rparr>
      else
        let C = nat (chunk_size p);
            (err, s) = chunk_loop parse (header f) C cb 0 (read_csv_chunks C (lines f))
                         \<lparr>chunks = [], proc = p, calls = []\<rparr>
        in (case err of
              Some e \<Rightarrow> \<lparr>returned = Inl e, after = proc s, progress = calls s\<rparr>
            | None \<Rightarrow> \<lparr>returned = concat_frames (chunks s), after = proc s, progress = calls s\<rparr>))"

text \<open>
  \<^verbatim>\<open>estimate_file_size\<close> reads the first 1000 data lines and measures the file. The
  size in megabytes is exact (a division by a power of two); the estimated row count and
  the recommended chunk size are floating-point estimates that no other method reads and
  are left out.
\<close>

record file_info =
  file_size_mb :: rat
  info_columns :: "string list"

definition estimate_file_size :: "csv_file \<Rightarrow> error + file_info" where
  "estimate_file_size f =
     (case tokenize (header f) 2 (take 1000 (lines f)) of
        Inl e \<Rightarrow> Inl e
      | Inr sample \<Rightarrow>
          Inr \<lparr>file_size_mb = of_nat (size_bytes f) / (1024 * 1024), info_columns = header f\<rparr>)"

text \<open>
  The Dask side is outside the repository: whether a client can be started, and what
  reading, transforming and computing the file through Dask gives (a frame or an
  exception), are parameters. \<^verbatim>\<open>initialize_dask_client\<close> swallows a failure to start.
\<close>

record dask_env =
  client_starts :: bool
  dask_compute :: "error + dataframe"

definition initialize_dask_client :: "dask_env \<Rightarrow> processor \<Rightarrow> processor" where
  "initialize_dask_client env p = p\<lparr>client := client_starts env\<rparr>"

definition process_with_dask ::
  "(string \<Rightarrow> int option) \<Rightarrow> dask_env \<Rightarrow> processor \<Rightarrow> csv_file \<Rightarrow> run" where
  "process_with_dask parse env p f =
     (let p1 = (if \<not> client p then initialize_dask_client env p else p)
      in (case dask_compute env of
            Inr result \<Rightarrow> \<lparr>returned = Inr result, after = p1, progress = []\<rparr>
          | Inl e \<Rightarrow> process_with_chunks parse p1 f None))"

definition process_large_csv ::
  "(string \<Rightarrow> int option) \<Rightarrow> dask_env \<Rightarrow> processor \<Rightarrow> csv_file \<Rightarrow> callback option \<Rightarrow> run" where
  "process_large_csv parse env p f callback_func =
     (case estimate_file_size f of
        Inl e \<Rightarrow> \<lparr>returned = Inl e, after = p, progress = []\<rparr>
      | Inr file_info \<Rightarrow>
          if file_size_mb file_info > 100 then process_with_dask parse env p f
          else process_with_chunks parse p f callback_func)"

section \<open>The dashboard's calls into the processor\<close>

text \<open>
  The message-analysis page of \<^verbatim>\<open>app.py\<close> calls \<^verbatim>\<open>_clean_text\<close>,
  \<^verbatim>\<open>_calculate_urgency_score\<close> and \<^verbatim>\<open>_calculate_frustration_score\<close> on the session's
  \<^verbatim>\<open>LargeFileProcessor\<close>. The attributes of such an object are the four set by
  \<^verbatim>\<open>__init__\<close> and the methods of the class; looking up any other name raises
  \<^verbatim>\<open>AttributeError\<close>.
\<close>

definition LargeFileProcessor_attributes :: "string list" where
  "LargeFileProcessor_attributes =
     [''chunk_size'', ''client'', ''processed_chunks'', ''total_rows'',
      ''__init__'', ''initialize_dask_client'', ''estimate_file_size'', ''process_large_csv'',
      ''_process_with_dask'', ''_process_with_chunks'']"

definition processor_getattr :: "string \<Rightarrow> error + string" where
  "processor_getattr name =
     (if name \<in> set LargeFileProcessor_attributes then Inr name else Inl (AttributeError name))"

section \<open>Well-formed files and what the pipeline makes of them\<close>

text \<open>
  A data line is good when it is not malformed, its \<^verbatim>\<open>created_at\<close> field is empty or
  a timestamp, and it has a text. A file is well formed when its header has distinct
  column names, \<^verbatim>\<open>created_at\<close> and \<^verbatim>\<open>text\<close> among them, and all its lines are good.
\<close>

fun good_line :: "(string \<Rightarrow> int option) \<Rightarrow> line \<Rightarrow> bool" where
  "good_line parse (Fields r) =
     ((case r ''created_at'' of None \<Rightarrow> True | Some s \<Rightarrow> parse s \<noteq> None) \<and> r ''text'' \<noteq> None)"
| "good_line parse Malformed = False"

definition well_formed :: "(string \<Rightarrow> int option) \<Rightarrow> csv_file \<Rightarrow> bool" where
  "well_formed parse f =
     (distinct (header f) \<and> ''created_at'' \<in> set (header f) \<and> ''text'' \<in> set (header f)
      \<and> list_all (good_line parse) (lines f))"

text \<open>
  The row of a data line as read, and the processed record made of a row: the timestamp
  converted and the normalised text added, as the loop body does for a whole chunk. (A
  malformed line has no row, and a text that is no timestamp has no converted value; the
  values given for them here are never reached on a good line.)
\<close>

fun row_of :: "string list \<Rightarrow> line \<Rightarrow> row" where
  "row_of hdr (Fields r) = to_row hdr r"
| "row_of hdr Malformed = []"

definition process_row :: "(string \<Rightarrow> int option) \<Rightarrow> row \<Rightarrow> row" where
  "process_row parse r =
     (let r1 = AList.update ''created_at''
                 (case datetime_cell parse 0 (cell_at r ''created_at'') of Inr d \<Rightarrow> d | Inl e \<Rightarrow> NaT) r
      in AList.update ''clean_text'' (clean_cell (cell_at r1 ''text'')) r1)"

text \<open>
  The progress calls of a run over the given chunks, started at chunk index \<open>i\<close> with
  the row counter at \<open>t\<close>.
\<close>

fun expected_calls :: "nat \<Rightarrow> nat \<Rightarrow> 'a list list \<Rightarrow> (nat \<times> nat \<times> nat) list" where
  "expected_calls i t [] = []"
| "expected_calls i t (c # cs) = (i, length c, t + length c) # expected_calls (Suc i) (t + length c) cs"

definition calls_for :: "callback option \<Rightarrow> nat \<Rightarrow> nat \<Rightarrow> 'a list list \<Rightarrow> (nat \<times> nat \<times> nat) list" where
  "calls_for cb i t cs = (case cb of None \<Rightarrow> [] | Some g \<Rightarrow> expected_calls i t cs)"

definition row_ok :: "(string \<Rightarrow> int option) \<Rightarrow> row \<Rightarrow> bool" where
  "row_ok parse r =
     (\<not> isl (datetime_cell parse 0 (cell_at r ''created_at'')) \<and> is_str (cell_at r ''text''))"

text \<open>The processed chunk made of the lines of one raw chunk.\<close>

definition done_chunk :: "(string \<Rightarrow> int option) \<Rightarrow> string list \<Rightarrow> line list \<Rightarrow> dataframe" where
  "done_chunk parse hdr raw =
     \<lparr>columns = add_column hdr ''clean_text'', rows = map (process_row parse) (map (row_of hdr) raw)\<rparr>"


text \<open>The rows and the columns of the frame a run returns, if it returns one.\<close>

definition rows_returned :: "run \<Rightarrow> row list option" where
  "rows_returned r = (case returned r of Inr df \<Rightarrow> Some (rows df) | Inl e \<Rightarrow> None)"

definition columns_returned :: "run \<Rightarrow> string list option" where
  "columns_returned r = (case returned r of Inr df \<Rightarrow> Some (columns df) | Inl e \<Rightarrow> None)"

section \<open>Sample data\<close>

text \<open>
  A small export with the two messages of the specification's scenario, a reader of its
  two timestamps, and a progress callback that does nothing.
\<close>

definition sample_parse :: "string \<Rightarrow> int option" where
  "sample_parse s =
     (if s = ''2017-10-31 22:10:47'' then Some 1509487847000000000
      else if s = ''2017-10-31 22:11:45'' then Some 1509487905000000000
      else None)"

definition sample_file :: csv_file where
  "sample_file =
     \<lparr>path = ''data/twcs.csv'', size_bytes = 141,
      header = [''tweet_id'', ''author_id'', ''inbound'', ''created_at'', ''text''],
      lines =
        [Fields [''tweet_id'' \<mapsto> ''1'', ''author_id'' \<mapsto> ''115712'', ''inbound'' \<mapsto> ''True'',
                 ''created_at'' \<mapsto> ''2017-10-31 22:10:47'', ''text'' \<mapsto> ''@joe please help urgent''],
         Fields [''tweet_id'' \<mapsto> ''2'', ''author_id'' \<mapsto> ''115712'', ''inbound'' \<mapsto> ''True'',
                 ''created_at'' \<mapsto> ''2017-10-31 22:11:45'', ''text'' \<mapsto> ''thanks, all good now'']]\<rparr>"

definition silent :: callback where
  "silent i n t = None"

text \<open>The same export with the text of the second message missing.\<close>

definition gap_file :: csv_file where
  "gap_file =
     \<lparr>path = ''data/gap.csv'', size_bytes = 104,
      header = [''tweet_id'', ''created_at'', ''text''],
      lines =
        [Fields [''tweet_id'' \<mapsto> ''1'', ''created_at'' \<mapsto> ''2017-10-31 22:10:47'',
                 ''text'' \<mapsto> ''@joe please help urgent''],
         Fields [''tweet_id'' \<mapsto> ''2'', ''created_at'' \<mapsto> ''2017-10-31 22:11:45'']]\<rparr>"

text \<open>
  The sample export measured at 500 MB, and a Dask side that fails.
\<close>

definition large_file :: csv_file where
  "large_file = sample_file\<lparr>size_bytes := 524288000\<rparr>"

definition failing_dask :: dask_env where
  "failing_dask = \<lparr>client_starts = False, dask_compute = Inl (Exception ''cluster unavailable'')\<rparr>"



section \<open>Properties of the text normaliser\<close>

lemma hd_dropWhile_not:
  "dropWhile P xs \<noteq> [] \<Longrightarrow> \<not> P (hd (dropWhile P xs))"
  by (induction xs) auto

lemma sub_mentions_inv:
  "\<not> has_mention (sub_mentions s) \<and>
   (sub_mentions s \<noteq> [] \<and> is_word (hd (sub_mentions s)) \<longrightarrow> s \<noteq> [] \<and> is_word (hd s))"
proof (induction s rule: sub_mentions.induct)
  case 1
  show ?case by simp
next
  case (2 c cs)
  show ?case
  proof (cases "c = CHR ''@'' \<and> cs \<noteq> [] \<and> is_word (hd cs)")
    case True
    with 2 have ih: "\<not> has_mention (sub_mentions (dropWhile is_word cs))"
      and ih2: "sub_mentions (dropWhile is_word cs) \<noteq> [] \<and>
                is_word (hd (sub_mentions (dropWhile is_word cs))) \<longrightarrow>
                dropWhile is_word cs \<noteq> [] \<and> is_word (hd (dropWhile is_word cs))"
      by simp_all
    from ih2 have "\<not> (sub_mentions (dropWhile is_word cs) \<noteq> [] \<and>
                is_word (hd (sub_mentions (dropWhile is_word cs))))"
      using hd_dropWhile_not [of is_word cs] by blast
    with True ih show ?thesis by auto
  next
    case False
    with 2 have ih: "\<not> has_mention (sub_mentions cs)"
      and ih2: "sub_mentions cs \<noteq> [] \<and> is_word (hd (sub_mentions cs)) \<longrightarrow>
                cs \<noteq> [] \<and> is_word (hd cs)"
      by simp_all
    have "\<not> has_mention (c # sub_mentions cs)"
    proof (cases "sub_mentions cs")
      case Nil
      then show ?thesis by simp
    next
      case (Cons d ds)
      with ih2 False have "\<not> (c = CHR ''@'' \<and> is_word d)" by auto
      with ih Cons show ?thesis by simp
    qed
    with False show ?thesis by auto
  qed
qed

lemma has_mention_Cons: "has_mention s \<Longrightarrow> has_mention (c # s)"
  by (cases s) auto

lemma has_mention_append: "has_mention xs \<Longrightarrow> has_mention (xs @ ys)"
  by (induction xs rule: has_mention.induct) auto

lemma has_mention_dropWhile: "has_mention (dropWhile P s) \<Longrightarrow> has_mention s"
  by (induction s) (auto simp: has_mention_Cons split: if_splits)

lemma rev_dropWhile_rev_prefix: "rev (dropWhile P (rev t)) @ rev (takeWhile P (rev t)) = t"
  by (metis rev_append rev_rev_ident takeWhile_dropWhile_id)

lemma has_mention_strip: "has_mention (strip s) \<Longrightarrow> has_mention s"
  unfolding strip_def
  by (metis has_mention_append has_mention_dropWhile rev_dropWhile_rev_prefix)

lemma sub_mentions_id: "\<not> has_mention s \<Longrightarrow> sub_mentions s = s"
proof (induction s rule: sub_mentions.induct)
  case 1
  show ?case by simp
next
  case (2 c cs)
  from 2(3) have a: "\<not> has_mention cs" using has_mention_Cons by blast
  from 2(3) have b: "\<not> (c = CHR ''@'' \<and> cs \<noteq> [] \<and> is_word (hd cs))"
    by (cases cs) auto
  from 2(2) a b show ?case by auto
qed

lemma hd_rev_dropWhile_rev:
  "rev (dropWhile P (rev u)) \<noteq> [] \<Longrightarrow> hd (rev (dropWhile P (rev u))) = hd u"
proof -
  assume a: "rev (dropWhile P (rev u)) \<noteq> []"
  have "hd (rev (dropWhile P (rev u)) @ rev (takeWhile P (rev u))) = hd u"
    by (simp only: rev_dropWhile_rev_prefix)
  with a show ?thesis by (metis hd_append2)
qed

lemma strip_no_leading: "strip s \<noteq> [] \<Longrightarrow> \<not> is_space (hd (strip s))"
proof -
  assume a: "strip s \<noteq> []"
  let ?u = "dropWhile is_space s"
  have "?u \<noteq> []"
  proof
    assume "?u = []"
    then have "strip s = []" by (simp only: strip_def rev.simps(1) dropWhile.simps(1))
    with a show False by simp
  qed
  then have "\<not> is_space (hd ?u)" by (rule hd_dropWhile_not)
  moreover from a have "hd (strip s) = hd ?u"
    unfolding strip_def by (rule hd_rev_dropWhile_rev)
  ultimately show ?thesis by simp
qed

lemma strip_no_trailing: "strip s \<noteq> [] \<Longrightarrow> \<not> is_space (last (strip s))"
proof -
  assume a: "strip s \<noteq> []"
  let ?v = "dropWhile is_space (rev (dropWhile is_space s))"
  from a have "?v \<noteq> []" by (simp add: strip_def)
  then have "\<not> is_space (hd ?v)" by (rule hd_dropWhile_not)
  moreover have "last (strip s) = hd ?v"
    using \<open>?v \<noteq> []\<close> by (simp add: strip_def last_rev)
  ultimately show ?thesis by simp
qed

lemma dropWhile_hd_id: "xs \<noteq> [] \<Longrightarrow> \<not> P (hd xs) \<Longrightarrow> dropWhile P xs = xs"
  by (cases xs) auto

lemma strip_fixed:
  assumes "s \<noteq> [] \<longrightarrow> \<not> is_space (hd s) \<and> \<not> is_space (last s)"
  shows "strip s = s"
proof (cases s)
  case Nil
  then show ?thesis by (simp add: strip_def)
next
  case (Cons c cs)
  with assms have h: "\<not> is_space (hd s)" and l: "\<not> is_space (last s)" by simp_all
  from h Cons have 1: "dropWhile is_space s = s" by simp
  from Cons have "rev s \<noteq> []" by simp
  moreover have "\<not> is_space (hd (rev s))" using l by (simp add: hd_rev)
  ultimately have 2: "dropWhile is_space (rev s) = rev s"
    by (rule dropWhile_hd_id)
  show ?thesis by (simp add: strip_def 1 2)
qed

lemma strip_strip: "strip (strip s) = strip s"
  by (rule strip_fixed) (simp add: strip_no_leading strip_no_trailing)



lemma clean_text_idem: "clean_text (clean_text s) = clean_text s"
proof -
  have "\<not> has_mention (clean_text s)"
    unfolding clean_text_def using has_mention_strip sub_mentions_inv by blast
  then have "sub_mentions (clean_text s) = clean_text s" by (rule sub_mentions_id)
  then have "clean_text (clean_text s) = strip (clean_text s)" by (simp add: clean_text_def)
  also have "\<dots> = clean_text s" by (simp add: clean_text_def strip_strip)
  finally show ?thesis .
qed

section \<open>One chunk\<close>

lemma tokenize_good:
  "list_all (good_line parse) ls \<Longrightarrow> tokenize hdr n ls = Inr (map (row_of hdr) ls)"
proof (induction ls arbitrary: n)
  case Nil
  show ?case by simp
next
  case (Cons l ls)
  then show ?case by (cases l) simp_all
qed

lemma cell_at_to_row:
  "c \<in> set hdr \<Longrightarrow> cell_at (to_row hdr r) c = (case r c of Some s \<Rightarrow> Str s | None \<Rightarrow> NaN)"
  by (induction hdr) (auto simp: cell_at_def to_row_def)

lemma cell_at_update:
  "cell_at (AList.update k v r) c = (if c = k then v else cell_at r c)"
  by (simp add: cell_at_def update_conv')

lemma zip_map_same:
  "map (\<lambda>(r, v). F r v) (zip rs (map g rs)) = map (\<lambda>r. F r (g r)) rs"
  by (induction rs) simp_all

lemma to_datetime_ok:
  "\<forall>v \<in> set vs. \<not> isl (datetime_cell parse 0 v) \<Longrightarrow>
   to_datetime parse pos vs =
     Inr (map (\<lambda>v. case datetime_cell parse 0 v of Inr d \<Rightarrow> d | Inl e \<Rightarrow> NaT) vs)"
proof (induction vs arbitrary: pos)
  case Nil
  show ?case by simp
next
  case (Cons v vs)
  from Cons.prems obtain d where d: "datetime_cell parse 0 v = Inr d"
    by (cases "datetime_cell parse 0 v") auto
  then have "datetime_cell parse pos v = Inr d"
    by (auto simp: datetime_cell_def split: cell.splits option.splits)
  with Cons d show ?case by simp
qed

lemma process_chunk_ok:
  assumes "''created_at'' \<in> set hdr" and "''text'' \<in> set hdr"
    and "\<forall>r \<in> set rs. row_ok parse r"
  shows "process_chunk parse \<lparr>columns = hdr, rows = rs\<rparr> =
           Inr \<lparr>columns = add_column hdr ''clean_text'', rows = map (process_row parse) rs\<rparr>"
proof -
  let ?dt = "\<lambda>v. case datetime_cell parse 0 v of Inr d \<Rightarrow> d | Inl e \<Rightarrow> NaT"
  let ?r1 = "\<lambda>r. AList.update ''created_at'' (?dt (cell_at r ''created_at'')) r"
  have g1: "getitem \<lparr>columns = hdr, rows = rs\<rparr> ''created_at'' = Inr (map (\<lambda>r. cell_at r ''created_at'') rs)"
    using assms(1) by (simp add: getitem_def)
  have td: "to_datetime parse 0 (map (\<lambda>r. cell_at r ''created_at'') rs)
              = Inr (map ?dt (map (\<lambda>r. cell_at r ''created_at'') rs))"
    by (rule to_datetime_ok) (use assms(3) in \<open>auto simp: row_ok_def\<close>)
  have s1: "setitem \<lparr>columns = hdr, rows = rs\<rparr> ''created_at'' (map ?dt (map (\<lambda>r. cell_at r ''created_at'') rs))
              = \<lparr>columns = hdr, rows = map ?r1 rs\<rparr>"
    using assms(1) zip_map_same [of "\<lambda>r v. AList.update ''created_at'' v r" rs "\<lambda>r. ?dt (cell_at r ''created_at'')"]
    by (simp add: setitem_def comp_def)
  have g2: "getitem \<lparr>columns = hdr, rows = map ?r1 rs\<rparr> ''text'' = Inr (map (\<lambda>r. cell_at (?r1 r) ''text'') rs)"
    using assms(2) by (simp add: getitem_def comp_def)
  have sa: "str_accessor (map (\<lambda>r. cell_at (?r1 r) ''text'') rs) = Inr (map (\<lambda>r. cell_at (?r1 r) ''text'') rs)"
  proof (cases rs)
    case Nil
    then show ?thesis by (simp add: str_accessor_def)
  next
    case (Cons r rs')
    with assms(3) have "is_str (cell_at r ''text'')" by (simp add: row_ok_def)
    then have "is_str (cell_at (?r1 r) ''text'')" by (simp add: cell_at_update)
    with Cons show ?thesis by (simp add: str_accessor_def)
  qed
  have s2: "setitem \<lparr>columns = hdr, rows = map ?r1 rs\<rparr> ''clean_text''
              (map clean_cell (map (\<lambda>r. cell_at (?r1 r) ''text'') rs))
            = \<lparr>columns = add_column hdr ''clean_text'', rows = map (process_row parse) rs\<rparr>"
    using zip_map_same [of "\<lambda>r v. AList.update ''clean_text'' v r" "map ?r1 rs" "\<lambda>r. clean_cell (cell_at r ''text'')"]
    by (simp add: setitem_def comp_def add_column_def process_row_def Let_def)
  show ?thesis
    unfolding process_chunk_def by (simp only: g1 td s1 g2 sa s2 sum.case)
qed

section \<open>The loop over good chunks\<close>

lemma row_of_ok:
  assumes "good_line parse l" and "''created_at'' \<in> set hdr" and "''text'' \<in> set hdr"
  shows "row_ok parse (row_of hdr l)"
proof (cases l)
  case (Fields r)
  with assms show ?thesis
    by (auto simp: row_ok_def cell_at_to_row datetime_cell_def split: option.splits)
next
  case Malformed
  with assms show ?thesis by simp
qed

lemma chunk_step_good:
  assumes "''created_at'' \<in> set hdr" and "''text'' \<in> set hdr" and "list_all (good_line parse) raw"
  shows "tokenize hdr n raw = Inr (map (row_of hdr) raw)"
    and "process_chunk parse \<lparr>columns = hdr, rows = map (row_of hdr) raw\<rparr> = Inr (done_chunk parse hdr raw)"
proof -
  show "tokenize hdr n raw = Inr (map (row_of hdr) raw)" using assms(3) by (rule tokenize_good)
  have "\<forall>r \<in> set (map (row_of hdr) raw). row_ok parse r"
    using assms by (auto simp: list_all_iff row_of_ok)
  from process_chunk_ok [OF assms(1,2) this]
  show "process_chunk parse \<lparr>columns = hdr, rows = map (row_of hdr) raw\<rparr> = Inr (done_chunk parse hdr raw)"
    by (simp add: done_chunk_def)
qed

lemma chunk_loop_good:
  assumes "''created_at'' \<in> set hdr" and "''text'' \<in> set hdr"
    and "\<forall>raw \<in> set raws. list_all (good_line parse) raw"
    and "\<forall>g i n t. cb = Some g \<longrightarrow> g i n t = None"
  shows "chunk_loop parse hdr C cb i raws s =
           (None, \<lparr>chunks = chunks s @ map (done_chunk parse hdr) raws,
                   proc = (proc s)\<lparr>processed_chunks := processed_chunks (proc s) + length raws,
                                   total_rows := total_rows (proc s) + length (concat raws)\<rparr>,
                   calls = calls s @ calls_for cb i (total_rows (proc s)) raws\<rparr>)"
  using assms(3)
proof (induction raws arbitrary: i s)
  case Nil
  show ?case by (cases cb) (simp_all add: calls_for_def)
next
  case (Cons raw raws)
  then have good: "list_all (good_line parse) raw" and rest: "\<forall>raw \<in> set raws. list_all (good_line parse) raw"
    by simp_all
  note st = chunk_step_good [OF assms(1,2) good]
  have len: "length (rows (done_chunk parse hdr raw)) = length raw" by (simp add: done_chunk_def)
  show ?case
  proof (cases cb)
    case None
    note ih = Cons.IH [OF rest, unfolded None]
    show ?thesis unfolding None
      by (simp add: st len Let_def ih calls_for_def)
  next
    case (Some g)
    with assms(4) have "\<And>i n t. g i n t = None" by simp
    
    note ih = Cons.IH [OF rest, unfolded Some]
    show ?thesis unfolding Some
      by (simp add: st len Let_def ih calls_for_def \<open>\<And>i n t. g i n t = None\<close>)
  qed
qed

section \<open>Chunking and concatenation\<close>

lemma concat_chunks_of: "0 < C \<Longrightarrow> concat (chunks_of C xs) = xs"
proof (induction C xs rule: chunks_of.induct)
  case (1 C xs)
  show ?case
  proof (cases "xs = []")
    case True
    then show ?thesis by (subst chunks_of.simps) simp
  next
    case False
    with 1 have "concat (chunks_of C (drop C xs)) = drop C xs" by simp
    with False 1(2) show ?thesis by (subst chunks_of.simps) simp
  qed
qed


lemma concat_read_csv_chunks: "0 < C \<Longrightarrow> concat (read_csv_chunks C ls) = ls"
  by (simp add: read_csv_chunks_def concat_chunks_of)

lemma read_csv_chunks_not_Nil: "0 < C \<Longrightarrow> read_csv_chunks C ls \<noteq> []"
  by (cases ls) (simp_all add: read_csv_chunks_def chunks_of.simps [of C "x # xs" for x xs])

lemma set_read_csv_chunks:
  assumes "0 < C" and "raw \<in> set (read_csv_chunks C ls)"
  shows "set raw \<subseteq> set ls"
proof -
  from assms(2) have "set raw \<subseteq> set (concat (read_csv_chunks C ls))" by auto
  with assms(1) show ?thesis by (simp add: concat_read_csv_chunks)
qed

lemma foldl_add_column_known: "set cs \<subseteq> set acc \<Longrightarrow> foldl add_column acc cs = acc"
  by (induction cs arbitrary: acc) (simp_all add: add_column_def)

lemma foldl_add_column_new: "distinct (acc @ cs) \<Longrightarrow> foldl add_column acc cs = acc @ cs"
  by (induction cs arbitrary: acc) (simp_all add: add_column_def)

lemma union_columns_same:
  assumes "dfs \<noteq> []" and "\<forall>df \<in> set dfs. columns df = cs" and "distinct cs"
  shows "union_columns dfs = cs"
proof -
  from assms(1) obtain d ds where dfs: "dfs = d # ds" by (cases dfs) auto
  with assms(2) have d: "columns d = cs" and "\<forall>df \<in> set ds. columns df = cs" by simp_all
  then have sub: "set (concat (map columns ds)) \<subseteq> set cs" by auto
  have "union_columns dfs = foldl add_column (foldl add_column [] cs) (concat (map columns ds))"
    by (simp add: union_columns_def dfs d)
  also have "foldl add_column [] cs = cs" using assms(3) foldl_add_column_new [of "[]" cs] by simp
  also have "foldl add_column cs (concat (map columns ds)) = cs" using sub by (rule foldl_add_column_known)
  finally show ?thesis .
qed

lemma reindex_id: "distinct (map fst r) \<Longrightarrow> reindex (map fst r) r = r"
proof -
  assume d: "distinct (map fst r)"
  have "map (\<lambda>c. (c, cell_at r c)) (map fst r) = map (\<lambda>kv. (fst kv, cell_at r (fst kv))) r"
    by (simp add: comp_def)
  also have "\<dots> = map (\<lambda>kv. kv) r"
  proof (rule map_cong [OF refl])
    fix kv assume "kv \<in> set r"
    then have "(fst kv, snd kv) \<in> set r" by simp
    with d have "map_of r (fst kv) = Some (snd kv)" by (simp only: map_of_eq_Some_iff)
    then show "(fst kv, cell_at r (fst kv)) = kv" by (simp add: cell_at_def)
  qed
  finally show ?thesis by (simp add: reindex_def)
qed

lemma keys_process_row:
  assumes "''created_at'' \<in> set hdr"
  shows "map fst (process_row parse (to_row hdr r)) = add_column hdr ''clean_text''"
proof -
  have k: "map fst (to_row hdr r) = hdr" by (simp add: to_row_def comp_def)
  show ?thesis using assms
    by (simp add: process_row_def Let_def update_keys k add_column_def)
qed

lemma distinct_add_column: "distinct cs \<Longrightarrow> distinct (add_column cs c)"
  by (simp add: add_column_def)

section \<open>A whole run over a well-formed file\<close>

lemma reindex_done_row:
  assumes "distinct hdr" and "''created_at'' \<in> set hdr" and "good_line parse l"
  shows "reindex (add_column hdr ''clean_text'') (process_row parse (row_of hdr l)) = process_row parse (row_of hdr l)"
proof (cases l)
  case (Fields r)
  have k: "map fst (process_row parse (to_row hdr r)) = add_column hdr ''clean_text''"
    using assms(2) by (rule keys_process_row)
  have "distinct (map fst (process_row parse (to_row hdr r)))"
    using assms(1) by (simp add: k distinct_add_column)
  from reindex_id [OF this] show ?thesis by (simp add: k Fields)
next
  case Malformed
  with assms(3) show ?thesis by simp
qed

lemma concat_frames_done:
  assumes "raws \<noteq> []" and "distinct hdr" and "''created_at'' \<in> set hdr"
    and "\<forall>raw \<in> set raws. list_all (good_line parse) raw"
  shows "concat_frames (map (done_chunk parse hdr) raws) =
           Inr \<lparr>columns = add_column hdr ''clean_text'',
                rows = map (process_row parse) (map (row_of hdr) (concat raws))\<rparr>"
proof -
  let ?cs = "add_column hdr ''clean_text''"
  have u: "union_columns (map (done_chunk parse hdr) raws) = ?cs"
    by (rule union_columns_same) (use assms in \<open>auto simp: done_chunk_def distinct_add_column\<close>)
  have r: "map (reindex ?cs) (rows (done_chunk parse hdr raw)) = map (process_row parse) (map (row_of hdr) raw)"
    if "raw \<in> set raws" for raw
  proof -
    from that assms(4) have "\<forall>l \<in> set raw. good_line parse l" by (auto simp: list_all_iff)
    then show ?thesis
      using reindex_done_row [OF assms(2,3)] by (simp add: done_chunk_def)
  qed
  have "concat (map (\<lambda>df. map (reindex ?cs) (rows df)) (map (done_chunk parse hdr) raws))
          = concat (map (\<lambda>raw. map (process_row parse) (map (row_of hdr) raw)) raws)"
    using r by (simp add: comp_def cong: map_cong)
  also have "\<dots> = map (process_row parse) (map (row_of hdr) (concat raws))"
    by (simp add: map_concat comp_def)
  finally show ?thesis using assms(1) by (simp add: concat_frames_def u)
qed

lemma process_with_chunks_good:
  assumes wf: "well_formed parse f" and cs: "1 \<le> chunk_size p"
    and cb: "\<forall>g i n t. cb = Some g \<longrightarrow> g i n t = None"
  shows "process_with_chunks parse p f cb =
           \<lparr>returned = Inr \<lparr>columns = add_column (header f) ''clean_text'',
                             rows = map (process_row parse) (map (row_of (header f)) (lines f))\<rparr>,
            after = p\<lparr>processed_chunks := processed_chunks p + length (read_csv_chunks (nat (chunk_size p)) (lines f)),
                      total_rows := total_rows p + length (lines f)\<rparr>,
            progress = calls_for cb 0 (total_rows p) (read_csv_chunks (nat (chunk_size p)) (lines f))\<rparr>"
proof -
  let ?C = "nat (chunk_size p)"
  let ?raws = "read_csv_chunks ?C (lines f)"
  from cs have C: "0 < ?C" by simp
  from wf have d: "distinct (header f)" and c: "''created_at'' \<in> set (header f)"
    and t: "''text'' \<in> set (header f)" and g: "list_all (good_line parse) (lines f)"
    by (simp_all add: well_formed_def)
  have good: "\<forall>raw \<in> set ?raws. list_all (good_line parse) raw"
    using g set_read_csv_chunks [OF C] by (auto simp: list_all_iff)
  have ne: "?raws \<noteq> []" using C by (rule read_csv_chunks_not_Nil)
  have loop: "chunk_loop parse (header f) ?C cb 0 ?raws \<lparr>chunks = [], proc = p, calls = []\<rparr> =
      (None, \<lparr>chunks = map (done_chunk parse (header f)) ?raws,
              proc = p\<lparr>processed_chunks := processed_chunks p + length ?raws,
                       total_rows := total_rows p + length (concat ?raws)\<rparr>,
              calls = calls_for cb 0 (total_rows p) ?raws\<rparr>)"
    using chunk_loop_good [where s = "\<lparr>chunks = [], proc = p, calls = []\<rparr>", OF c t good cb]
    by simp
  note cc = concat_frames_done [OF ne d c good]
  show ?thesis using cs
    by (simp add: process_with_chunks_def Let_def loop cc concat_read_csv_chunks [OF C])
qed


section \<open>The progress calls\<close>







section \<open>Facts about the sample data\<close>



lemmas eval_defs = process_with_chunks_def init_processor_def read_csv_chunks_def chunks_of.simps
    process_chunk_def getitem_def setitem_def cell_at_def to_row_def datetime_cell_def sample_parse_def
    str_accessor_def silent_def concat_frames_def union_columns_def add_column_def reindex_def
    clean_text_def strip_def is_word_def is_space_def Let_def rows_returned_def columns_returned_def

text \<open>
  Read one line at a time, the line without a text is a chunk whose text column holds no
  string, and the \<^verbatim>\<open>.str\<close> accessor refuses it.
\<close>

lemma missing_text_alone_raises:
  "returned (process_with_chunks sample_parse (init_processor 10000 (Some 1)) gap_file None)
     = Inl (AttributeError ''Can only use .str accessor with string values!'')"
  by (simp add: eval_defs gap_file_def)


section \<open>A run that meets a bad line\<close>






section \<open>The choice between the two paths\<close>

lemma chunk_loop_view:
  assumes "chunks s = chunks s'" and "calls s = calls s'"
    and "total_rows (proc s) = total_rows (proc s')"
  shows "fst (chunk_loop parse hdr C cb i raws s) = fst (chunk_loop parse hdr C cb i raws s')
       \<and> chunks (snd (chunk_loop parse hdr C cb i raws s)) = chunks (snd (chunk_loop parse hdr C cb i raws s'))
       \<and> calls (snd (chunk_loop parse hdr C cb i raws s)) = calls (snd (chunk_loop parse hdr C cb i raws s'))"
  using assms
proof (induction raws arbitrary: i s s')
  case Nil
  then show ?case by simp
next
  case (Cons raw raws)
  show ?case
  proof (cases "tokenize hdr (i * C + 2) raw")
    case (Inl e)
    with Cons.prems show ?thesis by simp
  next
    case (Inr rs)
    show ?thesis
    proof (cases "process_chunk parse \<lparr>columns = hdr, rows = rs\<rparr>")
      case (Inl e)
      with Inr Cons.prems show ?thesis by simp
    next
      case pc: (Inr chunk)
      let ?n = "length (rows chunk)"
      let ?upd = "\<lambda>s. s\<lparr>chunks := chunks s @ [chunk],
                   proc := (proc s)\<lparr>processed_chunks := processed_chunks (proc s) + 1,
                                   total_rows := total_rows (proc s) + ?n\<rparr>\<rparr>"
      let ?call = "\<lambda>s. (?upd s)\<lparr>calls := calls (?upd s) @ [(i, ?n, total_rows (proc s) + ?n)]\<rparr>"
      show ?thesis
      proof (cases cb)
        case None
        have "chunks (?upd s) = chunks (?upd s')" "calls (?upd s) = calls (?upd s')"
          "total_rows (proc (?upd s)) = total_rows (proc (?upd s'))"
          using Cons.prems by simp_all
        from Cons.IH [OF this, of "Suc i"] Inr pc None show ?thesis
          by (simp add: Let_def)
      next
        case (Some g)
        have v: "chunks (?call s) = chunks (?call s')" "calls (?call s) = calls (?call s')"
          "total_rows (proc (?call s)) = total_rows (proc (?call s'))"
          using Cons.prems by simp_all
        show ?thesis
        proof (cases "g i ?n (total_rows (proc s) + ?n)")
          case None
          from Cons.IH [OF v, of "Suc i"] Inr pc \<open>cb = Some g\<close> None Cons.prems show ?thesis
            by (simp add: Let_def)
        next
          case (Some e)
          with \<open>cb = Some g\<close> Inr pc Cons.prems show ?thesis by (simp add: Let_def)
        qed
      qed
    qed
  qed
qed

lemma process_with_chunks_unfold:
  "process_with_chunks parse p f cb =
     (if chunk_size p < 1
      then \<lparr>returned = Inl (ValueError ''chunksize must be an integer >=1''), after = p, progress = []\<rparr>
      else \<lparr>returned =
              (case fst (chunk_loop parse (header f) (nat (chunk_size p)) cb 0
                          (read_csv_chunks (nat (chunk_size p)) (lines f)) \<lparr>chunks = [], proc = p, calls = []\<rparr>) of
                 Some e \<Rightarrow> Inl e
               | None \<Rightarrow> concat_frames (chunks (snd (chunk_loop parse (header f) (nat (chunk_size p)) cb 0
                          (read_csv_chunks (nat (chunk_size p)) (lines f)) \<lparr>chunks = [], proc = p, calls = []\<rparr>)))),
            after = proc (snd (chunk_loop parse (header f) (nat (chunk_size p)) cb 0
                          (read_csv_chunks (nat (chunk_size p)) (lines f)) \<lparr>chunks = [], proc = p, calls = []\<rparr>)),
            progress = calls (snd (chunk_loop parse (header f) (nat (chunk_size p)) cb 0
                          (read_csv_chunks (nat (chunk_size p)) (lines f)) \<lparr>chunks = [], proc = p, calls = []\<rparr>))\<rparr>)"
  by (simp add: process_with_chunks_def Let_def split: prod.splits option.splits)

lemma process_with_chunks_client:
  "returned (process_with_chunks parse (p\<lparr>client := b\<rparr>) f cb) = returned (process_with_chunks parse p f cb)
   \<and> progress (process_with_chunks parse (p\<lparr>client := b\<rparr>) f cb) = progress (process_with_chunks parse p f cb)"
proof -
  let ?raws = "read_csv_chunks (nat (chunk_size p)) (lines f)"
  let ?s = "\<lparr>chunks = [], proc = p, calls = []\<rparr>"
  let ?s' = "\<lparr>chunks = [], proc = p\<lparr>client := b\<rparr>, calls = []\<rparr>"
  have "chunks ?s' = chunks ?s" "calls ?s' = calls ?s" "total_rows (proc ?s') = total_rows (proc ?s)"
    by simp_all
  from chunk_loop_view [OF this, of parse "header f" "nat (chunk_size p)" cb 0 ?raws]
  show ?thesis
    by (simp add: process_with_chunks_unfold cong: option.case_cong)
qed

lemma chunk_loop_no_callback:
  "calls (snd (chunk_loop parse hdr C None i raws s)) = calls s"
proof (induction raws arbitrary: i s)
  case Nil
  show ?case by simp
next
  case (Cons raw raws)
  show ?case
  proof (cases "tokenize hdr (i * C + 2) raw")
    case (Inl e)
    then show ?thesis by simp
  next
    case (Inr rs)
    show ?thesis
    proof (cases "process_chunk parse \<lparr>columns = hdr, rows = rs\<rparr>")
      case (Inl e)
      with Inr show ?thesis by simp
    next
      case pc: (Inr chunk)
      with Inr show ?thesis by (simp add: Let_def Cons.IH)
    qed
  qed
qed

lemma process_with_chunks_no_callback: "progress (process_with_chunks parse p f None) = []"
  by (simp add: process_with_chunks_unfold chunk_loop_no_callback)

lemma megabytes_over_100:
  "((100::rat) < of_nat n / (1024 * 1024)) = (100 * 1024 * 1024 < n)"
proof -
  have "((100::rat) < of_nat n / (1024 * 1024)) = ((104857600::rat) < of_nat n)"
    by (simp add: field_simps)
  also have "\<dots> = (of_nat 104857600 < (of_nat n :: rat))" by simp
  also have "\<dots> = (104857600 < n)" by (simp only: of_nat_less_iff)
  finally show ?thesis by simp
qed

lemma file_size_mb_over_100:
  assumes "estimate_file_size f = Inr info"
  shows "(100 < file_size_mb info) = (100 * 1024 * 1024 < size_bytes f)"
proof -
  from assms have "file_size_mb info = of_nat (size_bytes f) / (1024 * 1024)"
    by (auto simp: estimate_file_size_def split: sum.splits)
  then show ?thesis by (simp only: megabytes_over_100)
qed

lemma sample_rows:
  "map (process_row sample_parse) (map (row_of (header sample_file)) (lines sample_file))
      = [[(''tweet_id'', Str ''1''), (''author_id'', Str ''115712''), (''inbound'', Str ''True''),
              (''created_at'', Datetime 1509487847000000000), (''text'', Str ''@joe please help urgent''),
              (''clean_text'', Str ''please help urgent'')],
             [(''tweet_id'', Str ''2''), (''author_id'', Str ''115712''), (''inbound'', Str ''True''),
              (''created_at'', Datetime 1509487905000000000), (''text'', Str ''thanks, all good now''),
              (''clean_text'', Str ''thanks, all good now'')]]"
  by (simp add: sample_file_def to_row_def process_row_def cell_at_def datetime_cell_def sample_parse_def
        clean_text_def strip_def is_word_def is_space_def Let_def)

lemma large_file_wf: "well_formed sample_parse large_file"
  by (simp add: well_formed_def large_file_def sample_file_def sample_parse_def)

lemma large_file_estimate:
  "estimate_file_size large_file
     = Inr \<lparr>file_size_mb = 500, info_columns = [''tweet_id'', ''author_id'', ''inbound'', ''created_at'', ''text'']\<rparr>"
  by (simp add: estimate_file_size_def large_file_def sample_file_def)

section \<open>The claims\<close>

text \<open>
  C9. For every input string \<open>x\<close> the text normaliser is idempotent: normalising a
  normalised text changes nothing. The same holds for the values of a column, where a
  missing value stays missing.
\<close>

theorem normalize_idempotent:
  "clean_text (clean_text x) = clean_text x \<and> clean_cell (clean_cell v) = clean_cell v"
proof
  show "clean_text (clean_text x) = clean_text x" by (rule clean_text_idem)
  show "clean_cell (clean_cell v) = clean_cell v" by (cases v) (simp_all add: clean_text_idem)
qed

theorem normalize_idempotent_witness:
  "clean_text ''  @joe please help urgent '' = ''please help urgent'' \<and>
   clean_text (clean_text ''  @joe please help urgent '') = ''please help urgent''"
  using normalize_idempotent [of "''  @joe please help urgent ''" NaN]
  by (simp add: clean_text_def strip_def is_word_def is_space_def)


















text \<open>
  C2. For every file that is measured above 100 MB, so that the distributed path is
  chosen, and on which that path raises an exception, \<^verbatim>\<open>process_large_csv\<close> does not
  pass the failure on: what it returns is what the chunked path returns on the same
  file, and for a well-formed file that is every record of the file, once and in order.
\<close>

theorem fallback_to_chunked_path:
  assumes "estimate_file_size f = Inr info" and "100 < file_size_mb info"
    and "dask_compute env = Inl e"
  shows "returned (process_large_csv parse env p f callback_func)
           = returned (process_with_chunks parse p f None)
       \<and> (well_formed parse f \<and> 1 \<le> chunk_size p \<longrightarrow>
              rows_returned (process_large_csv parse env p f callback_func)
                = Some (map (process_row parse) (map (row_of (header f)) (lines f))))"
proof -
  have r: "returned (process_large_csv parse env p f callback_func)
             = returned (process_with_chunks parse p f None)"
    using assms process_with_chunks_client [where parse = parse and p = p and b = "client_starts env" and f = f and cb = None]
    by (simp add: process_large_csv_def process_with_dask_def initialize_dask_client_def)
  have "rows_returned (process_large_csv parse env p f callback_func)
          = Some (map (process_row parse) (map (row_of (header f)) (lines f)))"
    if "well_formed parse f" and "1 \<le> chunk_size p"
  proof -
    have "\<forall>g i n t. (None :: callback option) = Some g \<longrightarrow> g i n t = None" by simp
    from process_with_chunks_good [OF that this] r show ?thesis by (simp add: rows_returned_def)
  qed
  with r show ?thesis by simp
qed

theorem fallback_to_chunked_path_witness:
  "estimate_file_size large_file
     = Inr \<lparr>file_size_mb = 500, info_columns = [''tweet_id'', ''author_id'', ''inbound'', ''created_at'', ''text'']\<rparr>
   \<and> dask_compute failing_dask = Inl (Exception ''cluster unavailable'')
   \<and> well_formed sample_parse large_file \<and> 1 \<le> chunk_size (init_processor 10000 None)
   \<and> returned (process_large_csv sample_parse failing_dask (init_processor 10000 None) large_file (Some silent))
       = returned (process_with_chunks sample_parse (init_processor 10000 None) large_file None)
   \<and> rows_returned (process_large_csv sample_parse failing_dask (init_processor 10000 None) large_file (Some silent))
       = Some [[(''tweet_id'', Str ''1''), (''author_id'', Str ''115712''), (''inbound'', Str ''True''),
              (''created_at'', Datetime 1509487847000000000), (''text'', Str ''@joe please help urgent''),
              (''clean_text'', Str ''please help urgent'')],
             [(''tweet_id'', Str ''2''), (''author_id'', Str ''115712''), (''inbound'', Str ''True''),
              (''created_at'', Datetime 1509487905000000000), (''text'', Str ''thanks, all good now''),
              (''clean_text'', Str ''thanks, all good now'')]]"
proof -
  have big: "100 < file_size_mb \<lparr>file_size_mb = 500, info_columns = [''tweet_id'', ''author_id'', ''inbound'', ''created_at'', ''text'']\<rparr>"
    by simp
  have d: "dask_compute failing_dask = Inl (Exception ''cluster unavailable'')" by (simp add: failing_dask_def)
  have cs: "1 \<le> chunk_size (init_processor 10000 None)" by (simp add: init_processor_def)
  have hl: "header large_file = header sample_file" "lines large_file = lines sample_file"
    by (simp_all add: large_file_def)
  from fallback_to_chunked_path [OF large_file_estimate big d, of sample_parse "init_processor 10000 None" "Some silent"]
    large_file_estimate d large_file_wf cs sample_rows
  show ?thesis by (simp add: hl)
qed

text \<open>
  C10. For every file measured above 100 MB, \<^verbatim>\<open>process_large_csv\<close> never calls the
  progress callback it was given, whether the distributed path succeeds or fails; and
  when it fails on a well-formed file, every chunk is still processed by the chunked
  path, as the processor's chunk counter shows.
\<close>

theorem large_file_makes_no_progress_calls:
  assumes "100 * 1024 * 1024 < size_bytes f"
  shows "progress (process_large_csv parse env p f callback_func) = []
       \<and> (well_formed parse f \<and> 1 \<le> chunk_size p \<and> isl (dask_compute env) \<longrightarrow>
            processed_chunks (after (process_large_csv parse env p f callback_func))
              = processed_chunks p + length (read_csv_chunks (nat (chunk_size p)) (lines f)))"
proof (cases "estimate_file_size f")
  case (Inl e)
  have "\<not> well_formed parse f"
  proof
    assume "well_formed parse f"
    then have "list_all (good_line parse) (take 1000 (lines f))"
      by (auto simp: well_formed_def list_all_iff dest: in_set_takeD)
    from tokenize_good [OF this, of "header f" 2] Inl show False
      by (simp add: estimate_file_size_def)
  qed
  with Inl show ?thesis by (simp add: process_large_csv_def)
next
  case (Inr info)
  from file_size_mb_over_100 [OF Inr] assms have big: "100 < file_size_mb info" by simp
  let ?p1 = "if \<not> client p then initialize_dask_client env p else p"
  have plc: "process_large_csv parse env p f callback_func
          = (case dask_compute env of
               Inr result \<Rightarrow> \<lparr>returned = Inr result, after = ?p1, progress = []\<rparr>
             | Inl e \<Rightarrow> process_with_chunks parse ?p1 f None)"
    using Inr big by (simp add: process_large_csv_def process_with_dask_def Let_def)
  have 1: "progress (process_large_csv parse env p f callback_func) = []"
    by (cases "dask_compute env") (simp_all add: plc process_with_chunks_no_callback)
  have 2: "processed_chunks (after (process_large_csv parse env p f callback_func))
              = processed_chunks p + length (read_csv_chunks (nat (chunk_size p)) (lines f))"
    if wf: "well_formed parse f" and cs: "1 \<le> chunk_size p" and d: "isl (dask_compute env)"
  proof -
    from d obtain e where e: "dask_compute env = Inl e" by (cases "dask_compute env") auto
    have cs1: "1 \<le> chunk_size ?p1" using cs by (simp add: initialize_dask_client_def)
    have "\<forall>g i n t. (None :: callback option) = Some g \<longrightarrow> g i n t = None" by simp
    from process_with_chunks_good [OF wf cs1 this] e show ?thesis
      by (simp add: plc initialize_dask_client_def)
  qed
  from 1 2 show ?thesis by simp
qed

theorem large_file_makes_no_progress_calls_witness:
  "100 * 1024 * 1024 < size_bytes large_file
   \<and> well_formed sample_parse large_file \<and> 1 \<le> chunk_size (init_processor 10000 None)
   \<and> isl (dask_compute failing_dask)
   \<and> progress (process_large_csv sample_parse failing_dask (init_processor 10000 None) large_file (Some silent)) = []
   \<and> processed_chunks (after (process_large_csv sample_parse failing_dask (init_processor 10000 None)
        large_file (Some silent))) = 1"
proof -
  have big: "100 * 1024 * 1024 < size_bytes large_file" by (simp add: large_file_def)
  have cs: "1 \<le> chunk_size (init_processor 10000 None)" by (simp add: init_processor_def)
  have d: "isl (dask_compute failing_dask)" by (simp add: failing_dask_def)
  have n: "length (read_csv_chunks (nat (chunk_size (init_processor 10000 None))) (lines large_file)) = 1"
    by (simp add: init_processor_def large_file_def sample_file_def read_csv_chunks_def chunks_of.simps)
  have z: "processed_chunks (init_processor 10000 None) = 0" by (simp add: init_processor_def)
  from large_file_makes_no_progress_calls [OF big, of sample_parse failing_dask "init_processor 10000 None" "Some silent"]
    big large_file_wf cs d
  show ?thesis by (simp add: n z)
qed

text \<open>
  C8. The urgency and frustration score calculators are to return 0 on empty text
  without raising. The processor has no such methods (nor \<^verbatim>\<open>_clean_text\<close>): the
  calls of the message-analysis page raise \<^verbatim>\<open>AttributeError\<close> on any text.
\<close>

theorem score_calculators_are_not_defined:
  "processor_getattr ''_calculate_urgency_score'' = Inl (AttributeError ''_calculate_urgency_score'')
   \<and> processor_getattr ''_calculate_frustration_score'' = Inl (AttributeError ''_calculate_frustration_score'')
   \<and> processor_getattr ''_clean_text'' = Inl (AttributeError ''_clean_text'')
   \<and> processor_getattr ''process_large_csv'' = Inr ''process_large_csv''"
  by (simp add: processor_getattr_def LargeFileProcessor_attributes_def)

end
